theory Spec2Isabelle
  imports Main "HOL-Library.Word" "HOL-Library.Monad_Syntax"
begin

unbundle bit_operations_syntax

section \<open>Go values used by the decoder\<close>

text \<open>
  The decoder of \<^verbatim>\<open>decoder.go\<close> works on a Go byte slice.  A Go slice is a window into a
  backing array: it has a length and a capacity, and the two differ in what they bound.
  An index expression \<^verbatim>\<open>s[i]\<close> panics unless \<^verbatim>\<open>i < len(s)\<close>; a slice expression
  \<^verbatim>\<open>s[lo:hi]\<close> panics unless \<^verbatim>\<open>lo <= hi <= cap(s)\<close> (for slices the upper bound is the
  capacity, not the length).  The model keeps both: \<open>elems\<close> are the \<^verbatim>\<open>len(s)\<close> bytes
  of the slice, \<open>spare\<close> the bytes of the backing array between length and capacity.

  A run-time panic is the value \<open>None\<close> of the option monad; every other outcome is
  \<open>Some\<close> of what the Go function returns.
\<close>

type_synonym byte = "8 word"

record slice =
  elems :: "byte list"
  spare :: "byte list"

definition len :: "slice \<Rightarrow> nat" where
  "len s = length (elems s)"

definition cap :: "slice \<Rightarrow> nat" where
  "cap s = length (elems s) + length (spare s)"

definition backing :: "slice \<Rightarrow> byte list" where
  "backing s = elems s @ spare s"

text \<open>\<^verbatim>\<open>s[i]\<close>\<close>

definition index :: "slice \<Rightarrow> nat \<Rightarrow> byte option" where
  "index s i = (if i < len s then Some (elems s ! i) else None)"

text \<open>\<^verbatim>\<open>s[lo:hi]\<close>\<close>

definition reslice :: "slice \<Rightarrow> nat \<Rightarrow> nat \<Rightarrow> slice option" where
  "reslice s lo hi =
     (if lo \<le> hi \<and> hi \<le> cap s
      then Some \<lparr>elems = take (hi - lo) (drop lo (backing s)), spare = drop hi (backing s)\<rparr>
      else None)"

text \<open>\<^verbatim>\<open>string(bs)\<close>: a Go string is a sequence of bytes, as an Isabelle string is.\<close>

definition string_of_bytes :: "byte list \<Rightarrow> string" where
  "string_of_bytes bs = map (\<lambda>b. char_of (unat b)) bs"

text \<open>\<^verbatim>\<open>uint(i)\<close> for an \<^verbatim>\<open>int\<close> on a 64-bit platform: a negative value wraps around.\<close>

definition uint_of_int :: "int \<Rightarrow> nat" where
  "uint_of_int i = (if i < 0 then nat (i + 2 ^ 64) else nat i)"

text \<open>\<^verbatim>\<open>bytes.TrimRight(bs, string([]byte{c}))\<close>: drop every trailing byte equal to \<open>c\<close>.\<close>

definition TrimRight :: "byte list \<Rightarrow> byte \<Rightarrow> byte list" where
  "TrimRight bs c = rev (dropWhile (\<lambda>b. b = c) (rev bs))"

section \<open>Errors, constants and data of the package\<close>

text \<open>
  The four package-level error values of \<^verbatim>\<open>decoder.go\<close> (each \<^verbatim>\<open>errors.New\<close> is a value
  of its own, also where two share a message), the error of \<^verbatim>\<open>ioutil.ReadFile\<close>, and
  the two errors \<^verbatim>\<open>binary.Read\<close> returns on a reader that is too short.  The Go value
  \<^verbatim>\<open>nil\<close> of type \<^verbatim>\<open>error\<close> is \<open>None\<close>.
\<close>

datatype error =
    ErrEmptySpliceFile
  | ErrBadFileType
  | ErrNoRemBytesFld
  | ErrInvalidNumBytes
  | ErrReadFile string
  | EOF
  | ErrUnexpectedEOF

definition szFileIDFld :: nat where "szFileIDFld = 6"
definition szPlatFld :: nat where "szPlatFld = 11"
definition posRemBytesFld :: nat where "posRemBytesFld = 13"
definition posStartOfData :: nat where "posStartOfData = 14"
definition posStartTempo :: nat where "posStartTempo = 32"
definition szTempoFld :: nat where "szTempoFld = 4"
definition posFirstInstrument :: nat where "posFirstInstrument = 36"
definition numSteps :: nat where "numSteps = 16"

text \<open>
  \<^verbatim>\<open>type track struct { id uint; name string; steps [numSteps]byte }\<close>.  The field
  \<^verbatim>\<open>id\<close> is \<open>id_trk\<close> here (\<open>id\<close> is the identity function of HOL).
\<close>

record track =
  id_trk :: nat
  name :: string
  steps :: "byte list"

text \<open>
  \<^verbatim>\<open>type Pattern struct { hwver string; tempo float32; tracks []track }\<close>.  The tempo is
  kept as the 32 bits of the \<^verbatim>\<open>float32\<close> (its IEEE-754 pattern, what
  \<^verbatim>\<open>math.Float32bits\<close> gives).
\<close>

record Pattern =
  hwver :: string
  tempo :: "32 word"
  tracks :: "track list"

section \<open>Validation\<close>

text \<open>
  \<^verbatim>\<open>func isValidateSplice(contents []byte) error\<close>, lines 92 to 112.  The slice
  expression \<^verbatim>\<open>contents[:szFileIDFld]\<close> is evaluated before the length is compared
  with 14.
\<close>

definition isValidateSplice :: "slice \<Rightarrow> error option option" where
  "isValidateSplice contents =
     (let nbytes = len contents in
      if nbytes = 0 then Some (Some ErrEmptySpliceFile)
      else do {
        tag \<leftarrow> reslice contents 0 szFileIDFld;
        let filetype = string_of_bytes (elems tag);
        if filetype \<noteq> ''SPLICE'' then Some (Some ErrBadFileType)
        else if nbytes < posRemBytesFld + 1 then Some (Some ErrNoRemBytesFld)
        else Some None
      })"

section \<open>Decoding\<close>

text \<open>
  \<^verbatim>\<open>binary.Read(buf, binary.LittleEndian, &p.tempo)\<close> on a reader over \<open>bs\<close>: four
  bytes are read and assembled least significant byte first; a reader with fewer than
  four bytes gives \<^verbatim>\<open>io.EOF\<close> (nothing to read) or \<^verbatim>\<open>io.ErrUnexpectedEOF\<close>.
\<close>

definition le_uint32 :: "byte list \<Rightarrow> 32 word" where
  "le_uint32 b =
     ucast (b ! 0) OR push_bit 8 (ucast (b ! 1)) OR push_bit 16 (ucast (b ! 2))
       OR push_bit 24 (ucast (b ! 3))"

definition binary_Read :: "byte list \<Rightarrow> error + 32 word" where
  "binary_Read bs =
     (if length bs < 4 then Inl (if bs = [] then EOF else ErrUnexpectedEOF)
      else Inr (le_uint32 (take 4 bs)))"

text \<open>
  The body of the track loop, lines 164 to 185: one record is read at \<open>byteptr\<close>; the
  result is the track and the cursor behind it.
\<close>

definition decodeTrack :: "slice \<Rightarrow> nat \<Rightarrow> (track \<times> nat) option" where
  "decodeTrack remaining byteptr =
     do {
       i \<leftarrow> index remaining byteptr;
       let byteptr1 = byteptr + 4;
       n \<leftarrow> index remaining byteptr1;
       let szname = unat n;
       let byteptr2 = byteptr1 + 1;
       nm \<leftarrow> reslice remaining byteptr2 (byteptr2 + szname);
       let byteptr3 = byteptr2 + szname;
       st \<leftarrow> those (map (\<lambda>i. index remaining (byteptr3 + i)) [0..<numSteps]);
       Some (\<lparr>id_trk = unat i, name = string_of_bytes (elems nm), steps = st\<rparr>,
             byteptr3 + numSteps)
     }"

text \<open>
  The loop \<^verbatim>\<open>for byteptr := posFirstInstrument; byteptr < len(remaining); { ... }\<close>,
  lines 163 to 186, with the tracks appended so far.
\<close>

function decodeTracks :: "slice \<Rightarrow> nat \<Rightarrow> track list \<Rightarrow> track list option" where
  "decodeTracks remaining byteptr ts =
     (if byteptr < len remaining
      then (case decodeTrack remaining byteptr of
              None \<Rightarrow> None
            | Some (t, byteptr') \<Rightarrow> decodeTracks remaining byteptr' (ts @ [t]))
      else Some ts)"
  by pat_completeness auto
termination
  by (relation "measure (\<lambda>(remaining, byteptr, ts). len remaining - byteptr)")
     (auto simp: decodeTrack_def Let_def numSteps_def split: Option.bind_splits)

text \<open>
  \<^verbatim>\<open>func DecodeFile(path string) (*Pattern, error)\<close>, lines 117 to 189.  The argument
  \<open>file\<close> is what \<^verbatim>\<open>ioutil.ReadFile(path)\<close> gives: its error, or the contents of the
  file as a slice.  The result is the pair Go returns, \<^verbatim>\<open>nil\<close> being \<open>None\<close> in either
  place.  After a successful \<^verbatim>\<open>binary.Read\<close> the variable \<^verbatim>\<open>err\<close> is \<^verbatim>\<open>nil\<close>, which is
  what the last \<^verbatim>\<open>return p, err\<close> returns.
\<close>

definition DecodeFile :: "error + slice \<Rightarrow> (Pattern option \<times> error option) option" where
  "DecodeFile file =
     (case file of
        Inl err \<Rightarrow> Some (None, Some err)
      | Inr contents \<Rightarrow>
          do {
            v \<leftarrow> isValidateSplice contents;
            case v of
              Some err \<Rightarrow> Some (None, Some err)
            | None \<Rightarrow>
                do {
                  b \<leftarrow> index contents posRemBytesFld;
                  let reptdBytesRem = unat b;
                  let actualBytesRem = int (len contents) - int posRemBytesFld - 1;
                  if uint_of_int actualBytesRem < reptdBytesRem
                  then Some (None, Some ErrInvalidNumBytes)
                  else do {
                    remaining \<leftarrow>
                      reslice contents posStartOfData (posStartOfData + reptdBytesRem);
                    plat \<leftarrow> reslice remaining 0 szPlatFld;
                    let hw = TrimRight (elems plat) 0;
                    buf \<leftarrow> reslice remaining posStartTempo (posStartTempo + szTempoFld);
                    case binary_Read (elems buf) of
                      Inl err \<Rightarrow> Some (None, Some err)
                    | Inr bits \<Rightarrow>
                        do {
                          ts \<leftarrow> decodeTracks remaining posFirstInstrument [];
                          Some (Some \<lparr>hwver = string_of_bytes hw, tempo = bits, tracks = ts\<rparr>,
                                None)
                        }
                  }
                }
          })"

section \<open>Rendering\<close>

text \<open>
  The verb \<^verbatim>\<open>%d\<close> of \<^verbatim>\<open>fmt\<close> on an unsigned integer: its decimal digits, most
  significant first, no padding.
\<close>

function fmt_d :: "nat \<Rightarrow> string" where
  "fmt_d n = (if n < 10 then [char_of (48 + n)] else fmt_d (n div 10) @ [char_of (48 + n mod 10)])"
  by pat_completeness auto
termination
  by (relation "measure (\<lambda>n. n)") auto

text \<open>
  One round of the inner loop of \<^verbatim>\<open>tracksAsString\<close>, lines 74 to 84: the step \<open>s\<close> at
  index \<open>j\<close> is appended to \<open>stepstr\<close>.
\<close>

definition step_round :: "string \<Rightarrow> nat \<times> byte \<Rightarrow> string" where
  "step_round stepstr js =
     (case js of (j, s) \<Rightarrow>
        let stepstr1 = (if s = 1 then stepstr @ ''x'' else stepstr @ ''-'')
        in if (j + 1) mod 4 = 0 then stepstr1 @ ''|'' else stepstr1)"

text \<open>\<^verbatim>\<open>fmt.Sprintf("(%d) %s\t|%s\n", id, name, stepstr)\<close>\<close>

definition Sprintf_track :: "nat \<Rightarrow> string \<Rightarrow> string \<Rightarrow> string" where
  "Sprintf_track i n stepstr =
     ''('' @ fmt_d i @ '') '' @ n @ [CHR 0x09] @ ''|'' @ stepstr @ [CHR 0x0A]"

text \<open>\<^verbatim>\<open>func (p *Pattern) tracksAsString() string\<close>, lines 68 to 90.\<close>

definition tracksAsString :: "Pattern \<Rightarrow> string" where
  "tracksAsString p =
     foldl (\<lambda>trkstr t.
              trkstr @ Sprintf_track (id_trk t) (name t)
                         (foldl step_round [] (enumerate 0 (steps t))))
       [] (tracks p)"

text \<open>
  \<^verbatim>\<open>func (p *Pattern) String() string\<close>, lines 60 to 66.  The verb \<^verbatim>\<open>%v\<close> on the
  \<^verbatim>\<open>float32\<close> tempo is the shortest decimal that reads back as the same float, computed
  by \<^verbatim>\<open>strconv\<close> in floating point; it is the parameter \<open>fmt_v\<close> here.
\<close>

definition String_Pattern :: "(32 word \<Rightarrow> string) \<Rightarrow> Pattern \<Rightarrow> string" where
  "String_Pattern fmt_v p =
     ''Saved with HW Version: '' @ hwver p @ [CHR 0x0A] @ ''Tempo: '' @ fmt_v (tempo p)
       @ [CHR 0x0A] @ tracksAsString p"

section \<open>The format as the specification words it\<close>

text \<open>
  A track record, read from the front of a byte sequence: 1 byte id, 3 reserved bytes,
  1 byte name length \<open>n\<close>, \<open>n\<close> bytes of name, 16 bytes of steps; records repeat until
  the bytes are used up.  \<open>None\<close> says that a record runs past the end.
\<close>

function spec_track_records :: "byte list \<Rightarrow> track list option" where
  "spec_track_records bs =
     (if bs = [] then Some []
      else if length bs < 5 then None
      else if length bs < 5 + unat (bs ! 4) + 16 then None
      else map_option
             (Cons \<lparr>id_trk = unat (bs ! 0),
                    name = string_of_bytes (take (unat (bs ! 4)) (drop 5 bs)),
                    steps = take 16 (drop (5 + unat (bs ! 4)) bs)\<rparr>)
             (spec_track_records (drop (5 + unat (bs ! 4) + 16) bs)))"
  by pat_completeness auto
termination
  by (relation "measure length") auto

text \<open>The payload a header declares: the \<open>n\<close> bytes behind the 14 bytes of the header.\<close>

definition spec_payload :: "byte list \<Rightarrow> byte list" where
  "spec_payload bs = take (unat (bs ! 13)) (drop 14 bs)"

text \<open>One rendered step, and one rendered line of a track, as the specification draws it.\<close>

definition spec_cell :: "byte \<Rightarrow> char" where
  "spec_cell s = (if s = 1 then CHR ''x'' else CHR ''-'')"

definition spec_line :: "track \<Rightarrow> string" where
  "spec_line t =
     ''('' @ fmt_d (id_trk t) @ '') '' @ name t @ [CHR 0x09, CHR ''|'',
       spec_cell (steps t ! 0), spec_cell (steps t ! 1), spec_cell (steps t ! 2),
       spec_cell (steps t ! 3), CHR ''|'',
       spec_cell (steps t ! 4), spec_cell (steps t ! 5), spec_cell (steps t ! 6),
       spec_cell (steps t ! 7), CHR ''|'',
       spec_cell (steps t ! 8), spec_cell (steps t ! 9), spec_cell (steps t ! 10),
       spec_cell (steps t ! 11), CHR ''|'',
       spec_cell (steps t ! 12), spec_cell (steps t ! 13), spec_cell (steps t ! 14),
       spec_cell (steps t ! 15), CHR ''|'', CHR 0x0A]"

section \<open>Example files\<close>

text \<open>
  A file with one track: the tag, a declared count of 61, the version \<^verbatim>\<open>0.808-alpha\<close>
  padded with zeros to 32 bytes, the tempo 120 (\<^verbatim>\<open>0x42F00000\<close>), and the track 0 named
  \<^verbatim>\<open>kick\<close> with the steps 1,0,0,0 four times.
\<close>

definition kick_file :: "byte list" where
  "kick_file =
     [0x53, 0x50, 0x4C, 0x49, 0x43, 0x45, 0, 0, 0, 0, 0, 0, 0, 61,
      0x30, 0x2E, 0x38, 0x30, 0x38, 0x2D, 0x61, 0x6C, 0x70, 0x68, 0x61, 0, 0, 0, 0, 0, 0, 0,
      0, 0, 0, 0, 0, 0, 0, 0, 0, 0, 0, 0, 0, 0,
      0, 0, 0xF0, 0x42,
      0, 0, 0, 0, 4, 0x6B, 0x69, 0x63, 0x6B,
      1, 0, 0, 0, 1, 0, 0, 0, 1, 0, 0, 0, 1, 0, 0, 0]"

text \<open>
  A file whose header declares a payload of 0 bytes and which goes on for 36 bytes
  (version \<^verbatim>\<open>0.808-alpha\<close>, tempo 120), and a second file with the same 14 bytes of header
  followed by 36 other bytes (version \<^verbatim>\<open>0.909\<close>, tempo 240, \<^verbatim>\<open>0x43700000\<close>).
\<close>

definition count0_file_a :: "byte list" where
  "count0_file_a =
     [0x53, 0x50, 0x4C, 0x49, 0x43, 0x45, 0, 0, 0, 0, 0, 0, 0, 0,
      0x30, 0x2E, 0x38, 0x30, 0x38, 0x2D, 0x61, 0x6C, 0x70, 0x68, 0x61, 0, 0, 0, 0, 0, 0, 0,
      0, 0, 0, 0, 0, 0, 0, 0, 0, 0, 0, 0, 0, 0,
      0, 0, 0xF0, 0x42]"

definition count0_file_b :: "byte list" where
  "count0_file_b =
     [0x53, 0x50, 0x4C, 0x49, 0x43, 0x45, 0, 0, 0, 0, 0, 0, 0, 0,
      0x30, 0x2E, 0x39, 0x30, 0x39, 0, 0, 0, 0, 0, 0, 0, 0, 0, 0, 0, 0, 0,
      0, 0, 0, 0, 0, 0, 0, 0, 0, 0, 0, 0, 0, 0,
      0, 0, 0x70, 0x43]"


text \<open>
  A file with no track: the header declares a payload of 36 bytes, the version
  \<^verbatim>\<open>0.808-alpha\<close> and the tempo 120, and the file ends there.
\<close>

definition header_only_file :: "byte list" where
  "header_only_file =
     [0x53, 0x50, 0x4C, 0x49, 0x43, 0x45, 0, 0, 0, 0, 0, 0, 0, 36,
      0x30, 0x2E, 0x38, 0x30, 0x38, 0x2D, 0x61, 0x6C, 0x70, 0x68, 0x61, 0, 0, 0, 0, 0, 0, 0,
      0, 0, 0, 0, 0, 0, 0, 0, 0, 0, 0, 0, 0, 0,
      0, 0, 0xF0, 0x42]"

text \<open>
  A pattern with two tracks, the second with the largest id a byte holds and a step
  byte that is neither 0 nor 1.
\<close>

definition two_track_pattern :: Pattern where
  "two_track_pattern =
     \<lparr>hwver = ''0.909'', tempo = 0x43700000,
      tracks = [\<lparr>id_trk = 0, name = ''kick'',
                 steps = [1, 0, 0, 0, 1, 0, 0, 0, 1, 0, 0, 0, 1, 0, 0, 0]\<rparr>,
                \<lparr>id_trk = 255, name = ''Low Conga'',
                 steps = [0, 0, 0, 0, 1, 0, 0, 0, 0, 2, 0, 0, 1, 0, 0, 0]\<rparr>]\<rparr>"

declare decodeTracks.simps [simp del]
declare spec_track_records.simps [simp del]

section \<open>Slices\<close>

lemma take_Suc_drop:
  "q < length xs \<Longrightarrow> take (Suc k) (drop q xs) = xs ! q # take k (drop (Suc q) xs)"
  by (metis Cons_nth_drop_Suc take_Suc_Cons)

lemma take_drop_window:
  assumes "lo \<le> hi"
  shows "take (hi - lo) (drop lo b) @ drop hi b = drop lo (b :: 'a list)"
proof -
  from assms have "drop hi b = drop (hi - lo) (drop lo b)" by simp
  then show ?thesis by (simp only: append_take_drop_id)
qed

lemma length_backing: "length (backing s) = cap s"
  by (simp add: backing_def cap_def)

lemma len_le_cap: "len s \<le> cap s"
  by (simp add: len_def cap_def)

lemma take_drop_backing:
  "q + n \<le> len r \<Longrightarrow> take n (drop q (backing r)) = take n (drop q (elems r))"
  by (simp add: backing_def len_def)

lemma reslice_Some:
  assumes "lo \<le> hi" "hi \<le> cap s"
  shows "reslice s lo hi =
     Some \<lparr>elems = take (hi - lo) (drop lo (backing s)), spare = drop hi (backing s)\<rparr>"
  using assms by (simp add: reslice_def)

lemma reslice_None: "cap s < hi \<Longrightarrow> reslice s lo hi = None"
  by (simp add: reslice_def)

lemma backing_reslice:
  assumes "lo \<le> hi"
  shows "backing \<lparr>elems = take (hi - lo) (drop lo (backing s)), spare = drop hi (backing s)\<rparr> =
     drop lo (backing s)"
proof -
  have "backing \<lparr>elems = A, spare = B\<rparr> = A @ B" for A B
    by (simp add: backing_def)
  then show ?thesis
    using take_drop_window [OF assms] by simp
qed

lemma cap_reslice:
  assumes "lo \<le> hi" "hi \<le> cap s"
  shows "cap \<lparr>elems = take (hi - lo) (drop lo (backing s)), spare = drop hi (backing s)\<rparr> =
     cap s - lo"
  using assms length_backing [of s] by (simp add: cap_def)

text \<open>Reading \<open>k\<close> bytes one index at a time panics unless all of them lie below the length.\<close>

lemma those_nth:
  "those (map (\<lambda>i. if q + i < length xs then Some (xs ! (q + i)) else None) [0..<k]) =
     (if k = 0 \<or> q + k \<le> length xs then Some (take k (drop q xs)) else None)"
proof (induction k arbitrary: q)
  case 0
  then show ?case by simp
next
  case (Suc k)
  let ?f = "\<lambda>q i. if q + i < length xs then Some (xs ! (q + i)) else None"
  have upt: "[0..<Suc k] = 0 # map Suc [0..<k]"
    by (simp add: upt_conv_Cons map_Suc_upt del: upt_Suc)
  have shift: "map (?f q) (map Suc [0..<k]) = map (?f (Suc q)) [0..<k]"
    by simp
  have step: "those (map (?f q) [0..<Suc k]) =
     (case ?f q 0 of None \<Rightarrow> None
      | Some y \<Rightarrow> map_option (Cons y) (those (map (?f (Suc q)) [0..<k])))"
    unfolding upt list.map shift those.simps ..
  show ?case
  proof (cases "q < length xs")
    case False
    then show ?thesis unfolding step by simp
  next
    case True
    then show ?thesis
      unfolding step Suc [of "Suc q"]
      by (simp add: take_Suc_drop)
  qed
qed

lemma those_index:
  "those (map (\<lambda>i. index r (q + i)) [0..<k]) =
     (if k = 0 \<or> q + k \<le> len r then Some (take k (drop q (elems r))) else None)"
  unfolding index_def len_def by (rule those_nth)

section \<open>Validation\<close>

lemma isValidateSplice_tag:
  assumes "6 \<le> len c"
  shows "isValidateSplice c =
     Some (if string_of_bytes (take 6 (elems c)) \<noteq> ''SPLICE'' then Some ErrBadFileType
           else if len c < 14 then Some ErrNoRemBytesFld else None)"
proof -
  from assms have "reslice c 0 szFileIDFld =
      Some \<lparr>elems = take 6 (elems c), spare = drop 6 (backing c)\<rparr>"
    by (simp add: reslice_def cap_def len_def backing_def szFileIDFld_def)
  with assms show ?thesis
    by (simp add: isValidateSplice_def posRemBytesFld_def)
qed

lemma isValidateSplice_ok_iff:
  "isValidateSplice c = Some None \<longleftrightarrow>
     14 \<le> len c \<and> string_of_bytes (take 6 (elems c)) = ''SPLICE''"
proof (cases "6 \<le> len c")
  case True
  then show ?thesis by (simp add: isValidateSplice_tag)
next
  case False
  then show ?thesis
    by (auto simp: isValidateSplice_def posRemBytesFld_def Let_def
        split: Option.bind_splits if_splits)
qed

section \<open>The track loop reads the records of the format\<close>

lemma decodeTrack_eq:
  assumes "p < len r"
  shows "decodeTrack r p =
     (if len r < p + 5 then None
      else if len r < p + 5 + unat (elems r ! (p + 4)) + 16 then None
      else Some (\<lparr>id_trk = unat (elems r ! p),
                  name = string_of_bytes (take (unat (elems r ! (p + 4))) (drop (p + 5) (elems r))),
                  steps = take 16 (drop (p + 5 + unat (elems r ! (p + 4))) (elems r))\<rparr>,
                 p + 5 + unat (elems r ! (p + 4)) + 16))"
  using assms unfolding decodeTrack_def Let_def those_index
  by (auto simp: index_def reslice_def cap_def len_def backing_def numSteps_def ac_simps
      split: Option.bind_splits)

lemma spec_track_records_drop:
  assumes "p < len r"
  shows "spec_track_records (drop p (elems r)) =
     (if len r < p + 5 then None
      else if len r < p + 5 + unat (elems r ! (p + 4)) + 16 then None
      else map_option
             (Cons \<lparr>id_trk = unat (elems r ! p),
                  name = string_of_bytes (take (unat (elems r ! (p + 4))) (drop (p + 5) (elems r))),
                  steps = take 16 (drop (p + 5 + unat (elems r ! (p + 4))) (elems r))\<rparr>)
             (spec_track_records (drop (p + 5 + unat (elems r ! (p + 4)) + 16) (elems r))))"
  using assms
  by (subst spec_track_records.simps) (auto simp: len_def ac_simps)

lemma decodeTracks_spec:
  "decodeTracks r p ts = map_option ((@) ts) (spec_track_records (drop p (elems r)))"
proof (induction r p ts rule: decodeTracks.induct)
  case (1 r p ts)
  show ?case
  proof (cases "p < len r")
    case False
    then show ?thesis
      by (simp add: decodeTracks.simps [of r p] spec_track_records.simps [of "[]"] len_def)
  next
    case True
    let ?n = "unat (elems r ! (p + 4))"
    show ?thesis
    proof (cases "len r < p + 5 \<or> len r < p + 5 + ?n + 16")
      case short: True
      then have "decodeTrack r p = None"
        unfolding decodeTrack_eq [OF True] by auto
      moreover from short have "spec_track_records (drop p (elems r)) = None"
        unfolding spec_track_records_drop [OF True] by auto
      ultimately show ?thesis
        using True by (simp add: decodeTracks.simps [of r p])
    next
      case fits: False
      let ?t = "\<lparr>id_trk = unat (elems r ! p),
                  name = string_of_bytes (take ?n (drop (p + 5) (elems r))),
                  steps = take 16 (drop (p + 5 + ?n) (elems r))\<rparr>"
      let ?p' = "p + 5 + ?n + 16"
      from fits have dt: "decodeTrack r p = Some (?t, ?p')"
        unfolding decodeTrack_eq [OF True] by auto
      from fits have sp: "spec_track_records (drop p (elems r)) =
          map_option (Cons ?t) (spec_track_records (drop ?p' (elems r)))"
        unfolding spec_track_records_drop [OF True] by auto
      have "decodeTracks r p ts = decodeTracks r ?p' (ts @ [?t])"
        using True dt by (simp add: decodeTracks.simps [of r p])
      also have "\<dots> = map_option ((@) (ts @ [?t])) (spec_track_records (drop ?p' (elems r)))"
        by (rule "1.IH" [OF True dt refl])
      also have "\<dots> = map_option ((@) ts) (spec_track_records (drop p (elems r)))"
        unfolding sp by (cases "spec_track_records (drop ?p' (elems r))") simp_all
      finally show ?thesis .
    qed
  qed
qed

section \<open>What a checked file decodes to\<close>

lemma uint_of_int_nat: "uint_of_int (int n) = n"
  by (simp add: uint_of_int_def)

lemma count_check_fails:
  assumes v: "isValidateSplice c = Some None"
    and chk: "len c - 14 < unat (elems c ! 13)"
  shows "DecodeFile (Inr c) = Some (None, Some ErrInvalidNumBytes)"
proof -
  from v have l: "14 \<le> len c"
    by (simp add: isValidateSplice_ok_iff)
  then have i13: "index c posRemBytesFld = Some (elems c ! 13)"
    by (simp add: index_def posRemBytesFld_def)
  have "int (len c) - int posRemBytesFld - 1 = int (len c - 14)"
    using l by (simp add: posRemBytesFld_def)
  then have act: "uint_of_int (int (len c) - int posRemBytesFld - 1) = len c - 14"
    by (simp add: uint_of_int_nat)
  from chk show ?thesis
    by (simp add: DecodeFile_def v i13 act Let_def)
qed

lemma DecodeFile_checked:
  assumes v: "isValidateSplice c = Some None"
    and chk: "\<not> len c - 14 < unat (elems c ! 13)"
  shows "DecodeFile (Inr c) =
     (if cap c < 50 then None
      else case spec_track_records (drop 36 (spec_payload (elems c))) of
             None \<Rightarrow> None
           | Some ts \<Rightarrow>
               Some (Some \<lparr>hwver = string_of_bytes (TrimRight (take 11 (drop 14 (backing c))) 0),
                           tempo = le_uint32 (take 4 (drop 46 (backing c))),
                           tracks = ts\<rparr>, None))"
proof -
  let ?N = "unat (elems c ! 13)"
  let ?rem = "\<lparr>elems = take ?N (drop 14 (backing c)), spare = drop (14 + ?N) (backing c)\<rparr>"
  from v have l: "14 \<le> len c"
    by (simp add: isValidateSplice_ok_iff)
  from l have i13: "index c posRemBytesFld = Some (elems c ! 13)"
    by (simp add: index_def posRemBytesFld_def)
  have "int (len c) - int posRemBytesFld - 1 = int (len c - 14)"
    using l by (simp add: posRemBytesFld_def)
  then have act: "uint_of_int (int (len c) - int posRemBytesFld - 1) = len c - 14"
    by (simp add: uint_of_int_nat)
  from chk l len_le_cap [of c] have fit: "14 + ?N \<le> cap c" by simp
  then have rem: "reslice c posStartOfData (posStartOfData + ?N) = Some ?rem"
    using reslice_Some [of 14 "14 + ?N" c] by (simp add: posStartOfData_def)
  have brem: "backing ?rem = drop 14 (backing c)"
    using backing_reslice [of 14 "14 + ?N" c] by simp
  have crem: "cap ?rem = cap c - 14"
    using cap_reslice [of 14 "14 + ?N" c] fit by simp
  from chk l have erem: "elems ?rem = spec_payload (elems c)"
    by (simp add: spec_payload_def backing_def len_def)
  show ?thesis
  proof (cases "cap c < 50")
    case True
    then have "reslice ?rem posStartTempo (posStartTempo + szTempoFld) = None"
      by (intro reslice_None) (simp add: crem posStartTempo_def szTempoFld_def)
    with True chk show ?thesis
      by (simp add: DecodeFile_def v i13 act rem Let_def split: Option.bind_split)
  next
    case False
    then have plat: "reslice ?rem 0 szPlatFld =
        Some \<lparr>elems = take 11 (drop 14 (backing c)), spare = drop 11 (drop 14 (backing c))\<rparr>"
      using reslice_Some [of 0 11 ?rem] by (simp add: crem brem szPlatFld_def)
    from False have buf: "reslice ?rem posStartTempo (posStartTempo + szTempoFld) =
        Some \<lparr>elems = take 4 (drop 46 (backing c)), spare = drop 36 (drop 14 (backing c))\<rparr>"
      using reslice_Some [of 32 36 ?rem]
      by (simp add: crem brem posStartTempo_def szTempoFld_def)
    from False have "length (take 4 (drop 46 (backing c))) = 4"
      by (simp add: length_backing)
    then have rd: "binary_Read (take 4 (drop 46 (backing c))) =
        Inr (le_uint32 (take 4 (drop 46 (backing c))))"
      by (simp add: binary_Read_def)
    have trk: "decodeTracks ?rem posFirstInstrument [] =
        spec_track_records (drop 36 (spec_payload (elems c)))"
      unfolding decodeTracks_spec erem [symmetric]
      by (simp add: posFirstInstrument_def option.map_ident cong: option.map_cong)
    from False chk show ?thesis
      by (simp add: DecodeFile_def v i13 act rem plat buf rd trk Let_def
          split: option.split)
  qed
qed

lemma take_drop_take:
  "j + k \<le> m \<Longrightarrow> take k (drop j (take m xs)) = take k (drop j xs)"
  by (simp add: drop_take)



text \<open>
  When the declared payload holds the 36 bytes of version and tempo, nothing behind the
  declared payload is read: two files that agree on the header and the declared payload
  decode alike.
\<close>

lemma DecodeFile_declared_payload_only:
  assumes v: "isValidateSplice c = Some None"
    and chk: "\<not> len c - 14 < unat (elems c ! 13)"
    and n36: "36 \<le> unat (elems c ! 13)"
    and same: "take (14 + unat (elems c ! 13)) (elems c') = take (14 + unat (elems c ! 13)) (elems c)"
    and l': "14 + unat (elems c ! 13) \<le> len c'"
  shows "DecodeFile (Inr c') = DecodeFile (Inr c)"
proof -
  let ?N = "unat (elems c ! 13)"
  let ?m = "14 + ?N"
  from v have l: "14 \<le> len c" and tag: "string_of_bytes (take 6 (elems c)) = ''SPLICE''"
    by (simp_all add: isValidateSplice_ok_iff)
  from chk l have lc: "?m \<le> len c" by simp
  have win: "take k (drop j (elems c')) = take k (drop j (elems c))" if "j + k \<le> ?m" for j k
    using take_drop_take [OF that, of "elems c'"] take_drop_take [OF that, of "elems c"] same
    by simp
  from win [of 0 6] have t6: "take 6 (elems c') = take 6 (elems c)" by simp
  from win [of 13 1] l' lc have b13: "elems c' ! 13 = elems c ! 13"
    by (simp add: take_Suc_conv_app_nth len_def)
  from l' t6 tag have v': "isValidateSplice c' = Some None"
    by (simp add: isValidateSplice_ok_iff)
  from l' have chk': "\<not> len c' - 14 < unat (elems c' ! 13)"
    by (simp add: b13)
  from n36 lc l' have caps: "\<not> cap c < 50" "\<not> cap c' < 50"
    using len_le_cap [of c] len_le_cap [of c'] by simp_all
  have pay: "spec_payload (elems c') = spec_payload (elems c)"
    using win [of 14 ?N] by (simp add: spec_payload_def b13)
  have "take 11 (drop 14 (backing c')) = take 11 (drop 14 (elems c'))"
    using n36 l' by (intro take_drop_backing) simp
  moreover have "take 11 (drop 14 (backing c)) = take 11 (drop 14 (elems c))"
    using n36 lc by (intro take_drop_backing) simp
  ultimately have hw: "take 11 (drop 14 (backing c')) = take 11 (drop 14 (backing c))"
    using win [of 14 11] n36 by simp
  have "take 4 (drop 46 (backing c')) = take 4 (drop 46 (elems c'))"
    using n36 l' by (intro take_drop_backing) simp
  moreover have "take 4 (drop 46 (backing c)) = take 4 (drop 46 (elems c))"
    using n36 lc by (intro take_drop_backing) simp
  ultimately have tm: "take 4 (drop 46 (backing c')) = take 4 (drop 46 (backing c))"
    using win [of 46 4] n36 by simp
  show ?thesis
    unfolding DecodeFile_checked [OF v chk] DecodeFile_checked [OF v' chk']
    using caps by (simp add: pay hw tm split: option.split)
qed

text \<open>
  A buffer of 1 to 5 bytes: the tag is sliced before any length but 0 is looked at, so
  the outcome depends on what lies behind the buffer in its backing array.
\<close>

lemma isValidateSplice_short:
  assumes "0 < len c" "len c < 6"
  shows "isValidateSplice c =
     (if cap c < 6 then None
      else Some (Some (if string_of_bytes (take 6 (backing c)) \<noteq> ''SPLICE''
                       then ErrBadFileType else ErrNoRemBytesFld)))"
  using assms
  by (simp add: isValidateSplice_def reslice_def szFileIDFld_def posRemBytesFld_def)

section \<open>Rendering\<close>

lemma foldl_append_concat:
  "foldl (\<lambda>acc t. acc @ f t) a ts = a @ concat (map f ts)"
  by (induction ts arbitrary: a) simp_all

lemma list16:
  assumes "length st = 16"
  shows "st = [st ! 0, st ! 1, st ! 2, st ! 3, st ! 4, st ! 5, st ! 6, st ! 7,
               st ! 8, st ! 9, st ! 10, st ! 11, st ! 12, st ! 13, st ! 14, st ! 15]"
proof -
  from assms obtain s0 s1 s2 s3 s4 s5 s6 s7 s8 s9 s10 s11 s12 s13 s14 s15
    where "st = [s0, s1, s2, s3, s4, s5, s6, s7, s8, s9, s10, s11, s12, s13, s14, s15]"
    by (auto simp: eval_nat_numeral length_Suc_conv)
  then show ?thesis by simp
qed

lemma step_round_cell:
  "step_round acc (j, s) =
     (if (j + 1) mod 4 = 0 then acc @ [spec_cell s, CHR ''|''] else acc @ [spec_cell s])"
  by (simp add: step_round_def spec_cell_def Let_def)

lemma stepstr16:
  "foldl step_round []
     (enumerate 0 [s0, s1, s2, s3, s4, s5, s6, s7, s8, s9, s10, s11, s12, s13, s14, s15]) =
     [spec_cell s0, spec_cell s1, spec_cell s2, spec_cell s3, CHR ''|'',
      spec_cell s4, spec_cell s5, spec_cell s6, spec_cell s7, CHR ''|'',
      spec_cell s8, spec_cell s9, spec_cell s10, spec_cell s11, CHR ''|'',
      spec_cell s12, spec_cell s13, spec_cell s14, spec_cell s15, CHR ''|'']"
  by (simp add: enumerate_eq_zip step_round_cell)

lemma Sprintf_track_spec_line:
  assumes "length (steps t) = numSteps"
  shows "Sprintf_track (id_trk t) (name t) (foldl step_round [] (enumerate 0 (steps t))) =
     spec_line t"
proof -
  from assms have "length (steps t) = 16" by (simp add: numSteps_def)
  from list16 [OF this] obtain s0 s1 s2 s3 s4 s5 s6 s7 s8 s9 s10 s11 s12 s13 s14 s15
    where st: "steps t = [s0, s1, s2, s3, s4, s5, s6, s7, s8, s9, s10, s11, s12, s13, s14, s15]"
    by blast
  show ?thesis
    unfolding Sprintf_track_def spec_line_def st stepstr16 by simp
qed

section \<open>The claims\<close>

subsection \<open>C1: where the tempo is read\<close>

text \<open>
  Claim C1 as stated: for every buffer that passes validation and the byte-count check,
  the tempo is the little-endian 32-bit value of the 4 bytes at payload offset 18
  (absolute file offset 32).  It fails on the one-track example file: the 4 bytes at
  payload offset 18, which are the bytes at file offset 32, are zero padding of the
  version field, and the decoded tempo is \<^verbatim>\<open>0x42F00000\<close> (120).
\<close>

theorem C1_counterexample:
  "isValidateSplice \<lparr>elems = kick_file, spare = []\<rparr> = Some None
   \<and> \<not> len \<lparr>elems = kick_file, spare = []\<rparr> - 14 < unat (kick_file ! 13)
   \<and> DecodeFile (Inr \<lparr>elems = kick_file, spare = []\<rparr>) =
       Some (Some \<lparr>hwver = ''0.808-alpha'', tempo = 0x42F00000,
                   tracks = [\<lparr>id_trk = 0, name = ''kick'',
                              steps = [1, 0, 0, 0, 1, 0, 0, 0, 1, 0, 0, 0, 1, 0, 0, 0]\<rparr>]\<rparr>, None)
   \<and> take 4 (drop 18 (spec_payload kick_file)) = take 4 (drop 32 kick_file)
   \<and> le_uint32 (take 4 (drop 18 (spec_payload kick_file))) = 0
   \<and> le_uint32 (take 4 (drop 18 (spec_payload kick_file))) \<noteq> 0x42F00000"
  by code_simp

text \<open>
  Claim C1, amended: for every buffer that passes validation and the byte-count check
  and is decoded to a Pattern, the tempo is the little-endian 32-bit value of exactly 4
  bytes at absolute file offset 46, which is payload offset 32: when the declared count
  is at least 36 they are the bytes 32 to 35 of the declared payload.  (The constant
  \<^verbatim>\<open>posStartTempo = 32\<close> indexes the payload slice, not the file.)
\<close>

theorem C1_tempo_offset:
  assumes "isValidateSplice contents = Some None"
    and "\<not> len contents - 14 < unat (elems contents ! 13)"
    and "DecodeFile (Inr contents) = Some (Some p, e)"
  shows "tempo p = le_uint32 (take 4 (drop 46 (backing contents)))
       \<and> length (take 4 (drop 46 (backing contents))) = 4
       \<and> (36 \<le> unat (elems contents ! 13) \<longrightarrow>
            take 4 (drop 46 (backing contents)) =
            take 4 (drop 32 (spec_payload (elems contents))))"
proof (intro conjI impI)
  from assms have c: "\<not> cap contents < 50"
    by (auto simp: DecodeFile_checked split: if_splits)
  with assms show "tempo p = le_uint32 (take 4 (drop 46 (backing contents)))"
    by (auto simp: DecodeFile_checked split: option.splits)
  from c show "length (take 4 (drop 46 (backing contents))) = 4"
    by (simp add: length_backing)
next
  assume n: "36 \<le> unat (elems contents ! 13)"
  from assms have l: "14 \<le> len contents"
    by (simp add: isValidateSplice_ok_iff)
  with n assms(2) have "46 + 4 \<le> len contents" by simp
  then have "take 4 (drop 46 (backing contents)) = take 4 (drop 46 (elems contents))"
    by (rule take_drop_backing)
  also have "\<dots> = take 4 (drop 32 (spec_payload (elems contents)))"
    using n by (simp add: spec_payload_def drop_take)
  finally show "take 4 (drop 46 (backing contents)) =
      take 4 (drop 32 (spec_payload (elems contents)))" .
qed

text \<open>The amended claim on the one-track example file.\<close>

theorem C1_tempo_offset_witness:
  "isValidateSplice \<lparr>elems = kick_file, spare = []\<rparr> = Some None
   \<and> \<not> len \<lparr>elems = kick_file, spare = []\<rparr> - 14 < unat (kick_file ! 13)
   \<and> 36 \<le> unat (kick_file ! 13)
   \<and> map_option (map_option tempo \<circ> fst) (DecodeFile (Inr \<lparr>elems = kick_file, spare = []\<rparr>)) =
       Some (Some (le_uint32 (take 4 (drop 32 (spec_payload kick_file)))))
   \<and> take 4 (drop 32 (spec_payload kick_file)) = [0, 0, 0xF0, 0x42]"
proof -
  let ?k = "\<lparr>elems = kick_file, spare = []\<rparr>"
  let ?p = "\<lparr>hwver = ''0.808-alpha'', tempo = 0x42F00000,
             tracks = [\<lparr>id_trk = 0, name = ''kick'',
                        steps = [1, 0, 0, 0, 1, 0, 0, 0, 1, 0, 0, 0, 1, 0, 0, 0]\<rparr>]\<rparr>"
  have v: "isValidateSplice ?k = Some None" by code_simp
  have c: "\<not> len ?k - 14 < unat (elems ?k ! 13)" by code_simp
  have n: "36 \<le> unat (elems ?k ! 13)" by code_simp
  have d: "DecodeFile (Inr ?k) = Some (Some ?p, None)" by code_simp
  have b: "take 4 (drop 32 (spec_payload kick_file)) = [0, 0, 0xF0, 0x42]" by code_simp
  from C1_tempo_offset [OF v c d] n
  have t: "tempo ?p = le_uint32 (take 4 (drop 46 (backing ?k)))"
    and w: "take 4 (drop 46 (backing ?k)) = take 4 (drop 32 (spec_payload (elems ?k)))"
    by blast+
  from t [unfolded w] have "le_uint32 (take 4 (drop 32 (spec_payload kick_file))) = 0x42F00000"
    by simp
  with v c n d b show ?thesis by simp
qed

subsection \<open>C2: where the track records start\<close>




subsection \<open>C3: the cases of validation\<close>




subsection \<open>C4: the byte-count check\<close>

text \<open>
  Claim C4: for every buffer that passes validation, with the declared count read as
  the unsigned byte at index 13 and the actual count the total length minus 14,
  decoding fails with InvalidByteCount if and only if the actual count is below the
  declared one; and the failure happens before any track is parsed: it returns no
  Pattern and is decided by the 14 bytes of the header and the length alone, whatever
  bytes follow the header.
\<close>

theorem C4_invalid_byte_count:
  assumes "isValidateSplice contents = Some None"
  shows "(DecodeFile (Inr contents) = Some (None, Some ErrInvalidNumBytes)
            \<longleftrightarrow> len contents - 14 < unat (elems contents ! 13))
       \<and> (\<forall>c'. len c' = len contents \<and> take 14 (elems c') = take 14 (elems contents)
                 \<and> len contents - 14 < unat (elems contents ! 13)
              \<longrightarrow> DecodeFile (Inr c') = Some (None, Some ErrInvalidNumBytes))"
proof (intro conjI allI impI)
  show "DecodeFile (Inr contents) = Some (None, Some ErrInvalidNumBytes)
          \<longleftrightarrow> len contents - 14 < unat (elems contents ! 13)"
  proof (cases "len contents - 14 < unat (elems contents ! 13)")
    case True
    with assms show ?thesis by (simp add: count_check_fails)
  next
    case False
    with assms show ?thesis
      by (simp add: DecodeFile_checked split: option.split)
  qed
next
  fix c'
  assume h: "len c' = len contents \<and> take 14 (elems c') = take 14 (elems contents)
    \<and> len contents - 14 < unat (elems contents ! 13)"
  from assms have l: "14 \<le> len contents"
    and tag: "string_of_bytes (take 6 (elems contents)) = ''SPLICE''"
    by (simp_all add: isValidateSplice_ok_iff)
  from h have "take 6 (take 14 (elems c')) = take 6 (take 14 (elems contents))"
    by simp
  then have t6: "take 6 (elems c') = take 6 (elems contents)"
    by simp
  from h have "take 14 (elems c') ! 13 = take 14 (elems contents) ! 13"
    by simp
  then have b13: "elems c' ! 13 = elems contents ! 13"
    by simp
  from l h t6 tag have "isValidateSplice c' = Some None"
    by (simp add: isValidateSplice_ok_iff)
  moreover from h b13 have "len c' - 14 < unat (elems c' ! 13)"
    by simp
  ultimately show "DecodeFile (Inr c') = Some (None, Some ErrInvalidNumBytes)"
    by (rule count_check_fails)
qed

text \<open>
  The claim on a file of 16 bytes that declares 5 and holds 2, and on the one-track
  example file, which holds what it declares.
\<close>

theorem C4_invalid_byte_count_witness:
  "isValidateSplice \<lparr>elems = [0x53, 0x50, 0x4C, 0x49, 0x43, 0x45, 0, 0, 0, 0, 0, 0, 0, 5, 1, 2],
                      spare = []\<rparr> = Some None
   \<and> DecodeFile (Inr \<lparr>elems = [0x53, 0x50, 0x4C, 0x49, 0x43, 0x45, 0, 0, 0, 0, 0, 0, 0, 5, 1, 2],
                       spare = []\<rparr>) = Some (None, Some ErrInvalidNumBytes)
   \<and> isValidateSplice \<lparr>elems = kick_file, spare = []\<rparr> = Some None
   \<and> DecodeFile (Inr \<lparr>elems = kick_file, spare = []\<rparr>) \<noteq> Some (None, Some ErrInvalidNumBytes)"
proof -
  let ?c = "\<lparr>elems = [0x53, 0x50, 0x4C, 0x49, 0x43, 0x45, 0, 0, 0, 0, 0, 0, 0, 5, 1, 2 :: byte],
             spare = []\<rparr>"
  let ?k = "\<lparr>elems = kick_file, spare = []\<rparr>"
  have v: "isValidateSplice ?c = Some None" by code_simp
  have vk: "isValidateSplice ?k = Some None" by code_simp
  have lt: "len ?c - 14 < unat (elems ?c ! 13)" by code_simp
  have ge: "\<not> len ?k - 14 < unat (elems ?k ! 13)" by code_simp
  from C4_invalid_byte_count [OF v] lt C4_invalid_byte_count [OF vk] ge v vk
  show ?thesis by blast
qed

subsection \<open>C5: buffers shorter than the tag\<close>

text \<open>
  Claim C5 says that a non-empty buffer shorter than 6 bytes fails validation with
  BadFileType or a Truncated condition, without reading out of bounds.  The code slices
  the 6 bytes of the tag before it checks any length but 0.  On the 3 bytes \<^verbatim>\<open>SPL\<close>
  with no spare capacity the slice expression panics; with the spare bytes \<^verbatim>\<open>ICE\<close>
  behind the buffer it reads them and returns MissingLengthField; with zero bytes
  behind the buffer it reads them and returns BadFileType.
\<close>

theorem C5_short_buffer:
  "isValidateSplice \<lparr>elems = [0x53, 0x50, 0x4C], spare = []\<rparr> = None
   \<and> isValidateSplice \<lparr>elems = [0x53, 0x50, 0x4C], spare = [0x49, 0x43, 0x45]\<rparr> =
       Some (Some ErrNoRemBytesFld)
   \<and> isValidateSplice \<lparr>elems = [0x53, 0x50, 0x4C], spare = [0, 0, 0]\<rparr> =
       Some (Some ErrBadFileType)"
  by code_simp

subsection \<open>C6: the rendered tracks\<close>

text \<open>
  Claim C6: for every Pattern (each track with its 16 steps), the renderer emits one
  line per track in the order of the track sequence, each line being \<^verbatim>\<open>(<id>) <name>\<close>,
  a tab and \<^verbatim>\<open>|\<close>, then the 16 step cells in order, a cell rendered \<^verbatim>\<open>x\<close> exactly when
  its byte is 1 and \<^verbatim>\<open>-\<close> for every other value, with a \<^verbatim>\<open>|\<close> after the cells 4, 8, 12
  and 16, and a newline at the end.
\<close>

theorem C6_tracksAsString:
  assumes "\<forall>t \<in> set (tracks p). length (steps t) = numSteps"
  shows "tracksAsString p = concat (map spec_line (tracks p))"
proof -
  have "tracksAsString p =
      concat (map (\<lambda>t. Sprintf_track (id_trk t) (name t)
                          (foldl step_round [] (enumerate 0 (steps t)))) (tracks p))"
    by (simp add: tracksAsString_def foldl_append_concat)
  also have "\<dots> = concat (map spec_line (tracks p))"
    using assms by (simp add: Sprintf_track_spec_line cong: map_cong)
  finally show ?thesis .
qed

text \<open>The claim on the pattern with two tracks.\<close>

theorem C6_tracksAsString_witness:
  "tracksAsString two_track_pattern =
     ''(0) kick'' @ [CHR 0x09] @ ''|x---|x---|x---|x---|'' @ [CHR 0x0A]
     @ ''(255) Low Conga'' @ [CHR 0x09] @ ''|----|x---|----|x---|'' @ [CHR 0x0A]"
proof -
  have h: "\<forall>t \<in> set (tracks two_track_pattern). length (steps t) = numSteps"
    by (simp add: two_track_pattern_def numSteps_def)
  have e: "concat (map spec_line (tracks two_track_pattern)) =
       ''(0) kick'' @ [CHR 0x09] @ ''|x---|x---|x---|x---|'' @ [CHR 0x0A]
       @ ''(255) Low Conga'' @ [CHR 0x09] @ ''|----|x---|----|x---|'' @ [CHR 0x0A]"
    by code_simp
  from C6_tracksAsString [OF h] e show ?thesis by simp
qed

subsection \<open>C8: bytes behind the declared payload\<close>

text \<open>
  Claim C8 says that bytes behind the declared payload do not influence the result.
  The code confines its index expressions to the declared payload, and its slice
  expressions for version and tempo only to the capacity: with a declared count below
  36 they read behind the declared payload.  The two example files that declare a
  payload of 0 bytes share their 14 bytes of header and differ only behind the
  declared payload; both decode without error, to different Patterns.
\<close>

theorem C8_trailing_bytes:
  "take 14 count0_file_b = take 14 count0_file_a
   \<and> unat (count0_file_a ! 13) = 0
   \<and> DecodeFile (Inr \<lparr>elems = count0_file_a, spare = []\<rparr>) =
       Some (Some \<lparr>hwver = ''0.808-alpha'', tempo = 0x42F00000, tracks = []\<rparr>, None)
   \<and> DecodeFile (Inr \<lparr>elems = count0_file_b, spare = []\<rparr>) =
       Some (Some \<lparr>hwver = ''0.909'', tempo = 0x43700000, tracks = []\<rparr>, None)"
  by code_simp

subsection \<open>C9: a Pattern or an error\<close>




subsection \<open>C10: a payload of exactly 36 bytes\<close>

text \<open>
  Claim C10: for every buffer that passes validation and the byte-count check with a
  declared count of exactly 36, decoding succeeds and returns a Pattern whose track
  sequence is empty, with the version and the tempo taken from the header.
\<close>

theorem C10_count_36_no_tracks:
  assumes "isValidateSplice contents = Some None"
    and "unat (elems contents ! 13) = 36"
    and "\<not> len contents - 14 < unat (elems contents ! 13)"
  shows "DecodeFile (Inr contents) =
     Some (Some \<lparr>hwver = string_of_bytes (TrimRight (take 11 (drop 14 (elems contents))) 0),
                 tempo = le_uint32 (take 4 (drop 46 (elems contents))),
                 tracks = []\<rparr>, None)"
proof -
  from assms have l: "50 \<le> len contents" by simp
  then have "50 \<le> cap contents"
    using len_le_cap [of contents] by simp
  moreover have "drop 36 (spec_payload (elems contents)) = []"
    using assms by (simp add: spec_payload_def)
  moreover have "take 11 (drop 14 (backing contents)) = take 11 (drop 14 (elems contents))"
    using l by (simp add: take_drop_backing)
  moreover have "take 4 (drop 46 (backing contents)) = take 4 (drop 46 (elems contents))"
    using l by (simp add: take_drop_backing)
  ultimately show ?thesis
    using assms by (simp add: DecodeFile_checked spec_track_records.simps [of "[]"])
qed

text \<open>The claim on the example file that ends with its header.\<close>

theorem C10_count_36_no_tracks_witness:
  "isValidateSplice \<lparr>elems = header_only_file, spare = []\<rparr> = Some None
   \<and> unat (header_only_file ! 13) = 36
   \<and> \<not> len \<lparr>elems = header_only_file, spare = []\<rparr> - 14 < unat (header_only_file ! 13)
   \<and> DecodeFile (Inr \<lparr>elems = header_only_file, spare = []\<rparr>) =
       Some (Some \<lparr>hwver = ''0.808-alpha'', tempo = 0x42F00000, tracks = []\<rparr>, None)"
proof -
  let ?h = "\<lparr>elems = header_only_file, spare = []\<rparr>"
  have v: "isValidateSplice ?h = Some None" by code_simp
  have n: "unat (elems ?h ! 13) = 36" by code_simp
  have c: "\<not> len ?h - 14 < unat (elems ?h ! 13)" by code_simp
  have hw: "string_of_bytes (TrimRight (take 11 (drop 14 (elems ?h))) 0) = ''0.808-alpha''"
    by code_simp
  have tm: "le_uint32 (take 4 (drop 46 (elems ?h))) = 0x42F00000"
    by code_simp
  from C10_count_36_no_tracks [OF v n c] v n c show ?thesis
    unfolding hw tm by simp
qed

end
